theory Spec2Isabelle
  imports Complex_Main
begin

text \<open>
  A shallow embedding of the water-monitoring dashboard's usage and anomaly logic:
  the usage of a period (\<^verbatim>\<open>FirebaseManager._calculate_usage_for_period\<close>), the loop that
  accumulates hourly and daily usage (\<^verbatim>\<open>generate_demo_historical_data\<close>,
  \<^verbatim>\<open>generate_demo_data\<close>) and the rolling z-score detector (\<^verbatim>\<open>detect_anomalies\<close>).
  The definitions come first, the properties after them.
\<close>

section \<open>Errors\<close>

text \<open>
  The exceptions that the modelled functions can meet, as values. \<open>InvalidReading\<close> and
  \<open>InvalidInput\<close> are the two error kinds the specification names; the others are the
  Python and pandas exceptions that the source can run into.
\<close>

datatype error =
    InvalidReading string
  | InvalidInput
  | IndexError
  | ValueError
  | DataError

section \<open>Usage for a period (firebase\_manager.py)\<close>

text \<open>
  A reading is a Python dict from field names to numbers. \<open>get_or r k d\<close> is
  \<^verbatim>\<open>r.get(k, d)\<close>.
\<close>

type_synonym reading = "string \<rightharpoonup> real"

definition get_or :: "reading \<Rightarrow> string \<Rightarrow> real \<Rightarrow> real" where
  "get_or r k d = (case r k of None \<Rightarrow> d | Some v \<Rightarrow> v)"

definition timestamp_key :: "reading \<Rightarrow> real" where
  "timestamp_key x = get_or x ''timestamp'' 0"

definition total_volume :: "reading \<Rightarrow> real" where
  "total_volume x = get_or x ''total_volume'' 0"

text \<open>
  \<^verbatim>\<open>FirebaseManager._calculate_usage_for_period\<close>, applied to the list that
  \<^verbatim>\<open>get_historical_readings\<close> fetched (always a list). \<^verbatim>\<open>list.sort\<close> is a stable
  sort, as \<^const>\<open>sort_key\<close> is. No statement of the function raises.
\<close>

definition calculate_usage_for_period :: "reading list \<Rightarrow> error + real" where
  "calculate_usage_for_period fetched =
     (if fetched = [] then Inr 0
      else
        let readings = sort_key timestamp_key fetched in
        if length readings < 2 then Inr 0
        else
          let first_reading = hd readings;
              last_reading = last readings;
              first_volume = total_volume first_reading;
              last_volume = total_volume last_reading;
              usage = max 0 (last_volume - first_volume)
          in Inr usage)"

text \<open>
  The specification's interval volumes, written from its words: the first reading has
  interval volume 0, every later one \<open>max 0 (total_volume[i] - total_volume[i-1])\<close>.
\<close>

fun clamped_diffs :: "real \<Rightarrow> real list \<Rightarrow> real list" where
  "clamped_diffs prev [] = []"
| "clamped_diffs prev (v # vs) = max 0 (v - prev) # clamped_diffs v vs"

definition spec_interval_volume :: "real list \<Rightarrow> real list" where
  "spec_interval_volume tvs = (case tvs of [] \<Rightarrow> [] | v # vs \<Rightarrow> 0 # clamped_diffs v vs)"

text \<open>A reading without a timestamp, given the timestamp 0.\<close>

definition fill_timestamp :: "reading \<Rightarrow> reading" where
  "fill_timestamp r = (if r ''timestamp'' = None then r(''timestamp'' \<mapsto> 0) else r)"

text \<open>A reading with both fields, for concrete inputs.\<close>

definition mk_reading :: "real \<Rightarrow> real \<Rightarrow> reading" where
  "mk_reading t v = [''timestamp'' \<mapsto> t, ''total_volume'' \<mapsto> v]"

section \<open>Hourly and daily usage accounting (data\_processing.py, dashboard.py)\<close>

text \<open>
  \<^verbatim>\<open>generate_demo_historical_data\<close> and \<^verbatim>\<open>generate_demo_data\<close> build an hourly
  \<^verbatim>\<open>pd.date_range\<close>, walk over it in a loop that accumulates the hourly and the daily
  usage, and then mark three rows as demonstration anomalies. Numbers are reals: binary
  floating point is not modelled.
\<close>

subsection \<open>Naive datetimes and the hourly range\<close>

text \<open>
  A naive \<^verbatim>\<open>datetime\<close> by its fields, in the proleptic Gregorian calendar. Every
  datetime object satisfies \<open>valid_datetime\<close>.
\<close>

record datetime =
  year :: int
  month :: nat
  day :: nat
  hour :: nat
  minute :: nat
  second :: nat
  microsecond :: nat

definition is_leap :: "int \<Rightarrow> bool" where
  "is_leap y = (y mod 4 = 0 \<and> (y mod 100 \<noteq> 0 \<or> y mod 400 = 0))"

definition days_in_month :: "int \<Rightarrow> nat \<Rightarrow> nat" where
  "days_in_month y m =
     (if m = 2 then (if is_leap y then 29 else 28)
      else if m = 4 \<or> m = 6 \<or> m = 9 \<or> m = 11 then 30 else 31)"

definition valid_datetime :: "datetime \<Rightarrow> bool" where
  "valid_datetime d =
     (1 \<le> month d \<and> month d \<le> 12 \<and> 1 \<le> day d \<and> day d \<le> days_in_month (year d) (month d)
      \<and> hour d < 24 \<and> minute d < 60 \<and> second d < 60 \<and> microsecond d < 1000000)"

text \<open>\<open>d + timedelta(hours=1)\<close>, the step of the range.\<close>

definition add_hour :: "datetime \<Rightarrow> datetime" where
  "add_hour d =
     (if hour d < 23 then d\<lparr>hour := hour d + 1\<rparr>
      else if day d < days_in_month (year d) (month d) then d\<lparr>day := day d + 1, hour := 0\<rparr>
      else if month d < 12 then d\<lparr>month := month d + 1, day := 1, hour := 0\<rparr>
      else d\<lparr>year := year d + 1, month := 1, day := 1, hour := 0\<rparr>)"

text \<open>The microseconds from the start of year 1 to a datetime, to measure a span.\<close>

definition days_before_year :: "int \<Rightarrow> int" where
  "days_before_year y = (y - 1) * 365 + (y - 1) div 4 - (y - 1) div 100 + (y - 1) div 400"

definition days_before_month :: "int \<Rightarrow> nat \<Rightarrow> int" where
  "days_before_month y m = sum_list (map (\<lambda>k. int (days_in_month y k)) [1..<m])"

definition to_microseconds :: "datetime \<Rightarrow> int" where
  "to_microseconds d =
     ((((days_before_year (year d) + days_before_month (year d) (month d) + int (day d)) * 24
        + int (hour d)) * 60 + int (minute d)) * 60 + int (second d)) * 1000000
     + int (microsecond d)"

text \<open>
  \<^verbatim>\<open>pd.date_range(start=start_date, end=end_date, freq='1H')\<close> on naive datetimes: the
  entries \<open>start_date + k\<close> hours that are not after \<open>end_date\<close>; none when \<open>end_date\<close> is
  before \<open>start_date\<close>. (The limits of pandas' timestamp range are not modelled.)
\<close>

definition range_periods :: "datetime \<Rightarrow> datetime \<Rightarrow> nat" where
  "range_periods start_date end_date =
     (let span = to_microseconds end_date - to_microseconds start_date
      in if span < 0 then 0 else nat (span div 3600000000) + 1)"

definition date_range :: "datetime \<Rightarrow> datetime \<Rightarrow> datetime list" where
  "date_range start_date end_date =
     map (\<lambda>k. (add_hour ^^ k) start_date) [0..<range_periods start_date end_date]"

subsection \<open>The loop\<close>

text \<open>
  A sample is one entry of \<^verbatim>\<open>dates\<close> together with the two draws of
  \<^verbatim>\<open>np.random.normal\<close> that the loop body makes for it (the first for the flow, the second
  for the pressure). The draws of a run are a function from the row number.
\<close>

record sample =
  stamp :: datetime
  flow_noise :: real
  pressure_noise :: real

definition samples :: "datetime list \<Rightarrow> (nat \<Rightarrow> real \<times> real) \<Rightarrow> sample list" where
  "samples dates draws =
     map (\<lambda>k. \<lparr>stamp = dates ! k, flow_noise = fst (draws k), pressure_noise = snd (draws k)\<rparr>)
       [0..<length dates]"

record gen_state =
  daily_sum :: real
  hourly_sum :: real
  last_day :: nat
  last_hour :: nat
  flow_rate :: "real list"
  pressure :: "real list"
  volume :: "real list"
  hourly_usage :: "real list"
  daily_usage :: "real list"

definition daily_pattern :: "nat \<rightharpoonup> real" where
  "daily_pattern = map_of
     [(0, 0.3), (1, 0.2), (2, 0.1), (3, 0.1), (4, 0.2), (5, 0.5),
      (6, 1.0), (7, 1.5), (8, 1.2), (9, 0.8), (10, 0.7), (11, 0.8),
      (12, 1.0), (13, 0.9), (14, 0.7), (15, 0.6), (16, 0.7), (17, 1.2),
      (18, 1.8), (19, 1.5), (20, 1.2), (21, 0.9), (22, 0.6), (23, 0.4)]"

text \<open>\<^verbatim>\<open>flow = base_flow * (1 + np.random.normal(0, 0.1))\<close>, not clamped.\<close>

definition sample_flow :: "sample \<Rightarrow> real" where
  "sample_flow x =
     (let base_flow = (case daily_pattern (hour (stamp x)) of None \<Rightarrow> 0.5 | Some m \<Rightarrow> m) * 8.0
      in base_flow * (1 + flow_noise x))"

text \<open>
  \<^verbatim>\<open>vol\<close>: \<^verbatim>\<open>round(flow * 60 / 1000, 2)\<close> in data\_processing.py,
  \<^verbatim>\<open>flow * 60 / 1000\<close> in dashboard.py. The two loops differ only in the calls of
  \<^verbatim>\<open>round(_, 2)\<close>. Python rounds the binary double, which the reals cannot follow digit
  by digit, so the rounding is the parameter \<open>rnd\<close>: Python's \<^verbatim>\<open>round(_, 2)\<close> in
  data\_processing.py, the identity in dashboard.py.
\<close>

definition sample_vol :: "(real \<Rightarrow> real) \<Rightarrow> sample \<Rightarrow> real" where
  "sample_vol rnd x = rnd (sample_flow x * 60 / 1000)"

definition loop_init :: "datetime \<Rightarrow> gen_state" where
  "loop_init d0 =
     \<lparr>daily_sum = 0, hourly_sum = 0, last_day = day d0, last_hour = hour d0,
      flow_rate = [], pressure = [], volume = [], hourly_usage = [], daily_usage = []\<rparr>"

definition loop_body :: "(real \<Rightarrow> real) \<Rightarrow> gen_state \<Rightarrow> sample \<Rightarrow> gen_state" where
  "loop_body rnd s x =
     (let date = stamp x;
          s1 = (if day date \<noteq> last_day s
                then s\<lparr>daily_sum := 0, last_day := day date\<rparr> else s);
          s2 = (if hour date \<noteq> last_hour s1
                then s1\<lparr>hourly_sum := 0, last_hour := hour date\<rparr> else s1);
          flow = sample_flow x;
          base_pressure = 3.5 + pressure_noise x;
          vol = sample_vol rnd x;
          hs = hourly_sum s2 + vol;
          ds = daily_sum s2 + vol
      in s2\<lparr>hourly_sum := hs, daily_sum := ds,
             flow_rate := flow_rate s2 @ [max 0 (rnd flow)],
             pressure := pressure s2 @ [max 0.5 (rnd base_pressure)],
             volume := volume s2 @ [vol],
             hourly_usage := hourly_usage s2 @ [rnd hs],
             daily_usage := daily_usage s2 @ [rnd ds]\<rparr>)"

text \<open>
  The loop from its initialisation on: \<^verbatim>\<open>dates[0]\<close> raises \<^verbatim>\<open>IndexError\<close> on an empty
  range. The result is the state when the loop ends, whose five lists are the columns
  of the data frame.
\<close>

definition usage_loop :: "(real \<Rightarrow> real) \<Rightarrow> sample list \<Rightarrow> error + gen_state" where
  "usage_loop rnd xs =
     (case xs of
        [] \<Rightarrow> Inl IndexError
      | x # _ \<Rightarrow> Inr (foldl (loop_body rnd) (loop_init (stamp x)) xs))"

subsection \<open>The two generators\<close>

text \<open>
  One demonstration anomaly: \<^verbatim>\<open>if idx > 0\<close>, the flow rate of the row is tripled and its
  pressure multiplied by 1.5. The other columns are left as they are.
\<close>

definition inject_anomaly :: "gen_state \<Rightarrow> nat \<Rightarrow> gen_state" where
  "inject_anomaly df idx =
     (if 0 < idx
      then df\<lparr>flow_rate := (flow_rate df)[idx := flow_rate df ! idx * 3],
              pressure := (pressure df)[idx := pressure df ! idx * 1.5]\<rparr>
      else df)"

text \<open>
  What both functions do with their range: the loop, the data frame, and
  \<^verbatim>\<open>np.random.choice(len(df), size=3, replace=False)\<close>, which raises \<^verbatim>\<open>ValueError\<close> on a
  frame of fewer than three rows and otherwise returns three distinct row numbers, here
  \<open>anomaly_indices\<close>.
\<close>

definition demo_frame ::
  "(real \<Rightarrow> real) \<Rightarrow> datetime list \<Rightarrow> (nat \<Rightarrow> real \<times> real) \<Rightarrow> nat list \<Rightarrow> error + gen_state" where
  "demo_frame rnd dates draws anomaly_indices =
     (case usage_loop rnd (samples dates draws) of
        Inl e \<Rightarrow> Inl e
      | Inr df \<Rightarrow>
          if length dates < 3 then Inl ValueError
          else Inr (foldl inject_anomaly df anomaly_indices))"

text \<open>
  \<^verbatim>\<open>generate_demo_historical_data(start_timestamp, end_timestamp)\<close>, from the two naive
  datetimes that \<^verbatim>\<open>datetime.fromtimestamp\<close> makes of its arguments; \<open>py_round\<close> is Python's
  \<^verbatim>\<open>round(_, 2)\<close>.
\<close>

definition generate_demo_historical_data ::
  "(real \<Rightarrow> real) \<Rightarrow> datetime \<Rightarrow> datetime \<Rightarrow> (nat \<Rightarrow> real \<times> real) \<Rightarrow> nat list
   \<Rightarrow> error + gen_state" where
  "generate_demo_historical_data py_round start_date end_date draws anomaly_indices =
     demo_frame py_round (date_range start_date end_date) draws anomaly_indices"

text \<open>
  The historical part of \<^verbatim>\<open>generate_demo_data()\<close>: its range runs from
  \<^verbatim>\<open>datetime.now() - timedelta(days=7)\<close>, here \<open>week_ago\<close>, to a second reading of the
  clock, here \<open>now\<close>, which makes 169 rows.
\<close>

definition generate_demo_data ::
  "datetime \<Rightarrow> datetime \<Rightarrow> (nat \<Rightarrow> real \<times> real) \<Rightarrow> nat list \<Rightarrow> error + gen_state" where
  "generate_demo_data week_ago now draws anomaly_indices =
     demo_frame (\<lambda>v. v) (date_range week_ago now) draws anomaly_indices"

text \<open>The calendar day and the calendar hour of a timestamp, as the specification means them.\<close>

definition calendar_day :: "datetime \<Rightarrow> int \<times> nat \<times> nat" where
  "calendar_day d = (year d, month d, day d)"

definition calendar_hour :: "datetime \<Rightarrow> int \<times> nat \<times> nat \<times> nat" where
  "calendar_hour d = (year d, month d, day d, hour d)"

text \<open>
  Rounding to two decimals on the reals, a tie going to the even neighbour: one
  monotone rounding that keeps 0, to evaluate the loop of data\_processing.py on
  concrete values. (Python decides a tie on the binary double.)
\<close>

definition round_half_even :: "real \<Rightarrow> int" where
  "round_half_even y =
     (let f = \<lfloor>y\<rfloor>; r = y - of_int f
      in if r < 1 / 2 then f else if 1 / 2 < r then f + 1 else if even f then f else f + 1)"

definition decimal_round2 :: "real \<Rightarrow> real" where
  "decimal_round2 x = of_int (round_half_even (x * 100)) / 100"

text \<open>Datetimes, draws and a choice of anomaly rows for concrete inputs.\<close>

definition dt :: "nat \<Rightarrow> nat \<Rightarrow> nat \<Rightarrow> nat \<Rightarrow> datetime" where
  "dt mo d h mi =
     \<lparr>year = 2024, month = mo, day = d, hour = h, minute = mi, second = 0, microsecond = 0\<rparr>"

definition no_noise :: "nat \<Rightarrow> real \<times> real" where
  "no_noise k = (0, 0)"

section \<open>Anomaly detection (data\_processing.py)\<close>

subsection \<open>Floating-point values\<close>

text \<open>
  A float is a real number, an infinity or NaN. Rounding and overflow are not modelled:
  arithmetic on finite values is exact. Division follows numpy, which raises nothing on
  a zero divisor: \<open>0 / 0\<close> is NaN and \<open>a / 0\<close> is an infinity with the sign of \<open>a\<close>
  (the only zero divisor that occurs is the standard deviation \<open>+0\<close>).
\<close>

datatype fl = Fin real | PInf | NInf | NaN

fun fl_sub :: "fl \<Rightarrow> fl \<Rightarrow> fl" where
  "fl_sub (Fin a) (Fin b) = Fin (a - b)"
| "fl_sub (Fin a) PInf = NInf"
| "fl_sub (Fin a) NInf = PInf"
| "fl_sub PInf (Fin b) = PInf"
| "fl_sub PInf NInf = PInf"
| "fl_sub NInf (Fin b) = NInf"
| "fl_sub NInf PInf = NInf"
| "fl_sub _ _ = NaN"

fun fl_div :: "fl \<Rightarrow> fl \<Rightarrow> fl" where
  "fl_div (Fin a) (Fin b) =
     (if b \<noteq> 0 then Fin (a / b)
      else if a = 0 then NaN else if 0 < a then PInf else NInf)"
| "fl_div (Fin a) PInf = Fin 0"
| "fl_div (Fin a) NInf = Fin 0"
| "fl_div PInf (Fin b) = (if 0 \<le> b then PInf else NInf)"
| "fl_div NInf (Fin b) = (if 0 \<le> b then NInf else PInf)"
| "fl_div _ _ = NaN"

fun fl_abs :: "fl \<Rightarrow> fl" where
  "fl_abs (Fin a) = Fin \<bar>a\<bar>"
| "fl_abs PInf = PInf"
| "fl_abs NInf = PInf"
| "fl_abs NaN = NaN"

fun fl_sqrt :: "fl \<Rightarrow> fl" where
  "fl_sqrt (Fin a) = (if 0 \<le> a then Fin (sqrt a) else NaN)"
| "fl_sqrt PInf = PInf"
| "fl_sqrt _ = NaN"

text \<open>\<open>a > t\<close> for a finite threshold: every comparison with NaN is false.\<close>

fun fl_gt :: "fl \<Rightarrow> real \<Rightarrow> bool" where
  "fl_gt (Fin a) t = (t < a)"
| "fl_gt PInf t = True"
| "fl_gt _ t = False"

subsection \<open>Data frames and rolling windows\<close>

text \<open>
  A cell of a column is a float or an object that is not a number (text, for example).
  A data frame has an index of \<open>nrows\<close> labels and named columns; in a frame that
  pandas built every column has one cell per label.
\<close>

datatype cell = Num fl | Obj string

record dataframe =
  nrows :: nat
  columns :: "string \<rightharpoonup> cell list"

text \<open>\<^verbatim>\<open>df.empty\<close>: one of the two axes has length 0.\<close>

definition df_empty :: "dataframe \<Rightarrow> bool" where
  "df_empty df = (nrows df = 0 \<or> columns df = Map.empty)"

text \<open>An entry of the returned series: a boolean, or the missing value of an empty series.\<close>

datatype entry = Flag bool | Missing

text \<open>
  The pandas operations that \<^verbatim>\<open>detect_anomalies\<close> calls, after the pandas documentation
  and implementation of fixed rolling windows: \<^verbatim>\<open>rolling(window=w, center=True)\<close> wants an
  integer \<open>w \<ge> 0\<close> (\<^verbatim>\<open>ValueError\<close> otherwise) and a numeric column (\<^verbatim>\<open>DataError\<close>
  otherwise); the window of row \<open>i\<close> is the rows \<open>s \<le> j < e\<close> with
  \<open>e = i + 1 + (w - 1) div 2\<close> and \<open>s = e - w\<close>, both clipped to \<open>0 .. n\<close>; infinities count
  as NaN and NaN is skipped; \<^verbatim>\<open>min_periods\<close> is \<open>w\<close>, so a window with fewer than \<open>w\<close>
  observations yields NaN; \<^verbatim>\<open>std\<close> is the sample standard deviation (\<^verbatim>\<open>ddof=1\<close>).
\<close>

fun numeric_values :: "cell list \<Rightarrow> fl list option" where
  "numeric_values [] = Some []"
| "numeric_values (Num v # cs) = map_option ((#) v) (numeric_values cs)"
| "numeric_values (Obj s # cs) = None"

definition window_bounds :: "int \<Rightarrow> nat \<Rightarrow> nat \<Rightarrow> nat \<times> nat" where
  "window_bounds w n i =
     (let offset = (w - 1) div 2;
          e = int i + 1 + offset;
          s = e - w
      in (nat (min (max s 0) (int n)), nat (min (max e 0) (int n))))"

fun finite_values :: "fl list \<Rightarrow> real list" where
  "finite_values [] = []"
| "finite_values (Fin a # vs) = a # finite_values vs"
| "finite_values (_ # vs) = finite_values vs"

definition observations :: "fl list \<Rightarrow> int \<Rightarrow> nat \<Rightarrow> real list" where
  "observations vals w i =
     (case window_bounds w (length vals) i of
        (s, e) \<Rightarrow> finite_values (take (e - s) (drop s vals)))"

definition roll_mean :: "fl list \<Rightarrow> int \<Rightarrow> nat \<Rightarrow> fl" where
  "roll_mean vals w i =
     (let obs = observations vals w i; nobs = length obs
      in if w \<le> int nobs \<and> 0 < nobs then Fin (sum_list obs / real nobs) else NaN)"

definition roll_var :: "fl list \<Rightarrow> int \<Rightarrow> nat \<Rightarrow> fl" where
  "roll_var vals w i =
     (let obs = observations vals w i; nobs = length obs
      in if w \<le> int nobs \<and> 1 < nobs
         then let m = sum_list obs / real nobs
              in Fin (sum_list (map (\<lambda>x. (x - m)\<^sup>2) obs) / real (nobs - 1))
         else NaN)"

definition rolling_mean :: "cell list \<Rightarrow> int \<Rightarrow> error + fl list" where
  "rolling_mean col w =
     (if w < 0 then Inl ValueError
      else case numeric_values col of
             None \<Rightarrow> Inl DataError
           | Some vals \<Rightarrow> Inr (map (roll_mean vals w) [0..<length vals]))"

definition rolling_std :: "cell list \<Rightarrow> int \<Rightarrow> error + fl list" where
  "rolling_std col w =
     (if w < 0 then Inl ValueError
      else case numeric_values col of
             None \<Rightarrow> Inl DataError
           | Some vals \<Rightarrow> Inr (map (\<lambda>i. fl_sqrt (roll_var vals w i)) [0..<length vals]))"

subsection \<open>The detector\<close>

text \<open>
  The body of the \<^verbatim>\<open>try\<close> block after the guard, statement by statement; the series
  are aligned on the same index, so the arithmetic is element by element. The values of
  the column are read a third time for the subtraction, which is reached only when the
  two rolling computations have not raised.
\<close>

definition z_score_flags :: "cell list \<Rightarrow> int \<Rightarrow> real \<Rightarrow> error + entry list" where
  "z_score_flags col window threshold =
     (case rolling_mean col window of
        Inl e \<Rightarrow> Inl e
      | Inr rolling_mean_s \<Rightarrow>
     (case rolling_std col window of
        Inl e \<Rightarrow> Inl e
      | Inr rolling_std_s \<Rightarrow>
     (case numeric_values col of
        None \<Rightarrow> Inl DataError
      | Some vals \<Rightarrow>
          let z_scores = map2 fl_div (map2 fl_sub vals rolling_mean_s) rolling_std_s;
              anomalies = map (\<lambda>z. Flag (fl_gt (fl_abs z) threshold)) z_scores
          in Inr anomalies)))"

text \<open>
  \<^verbatim>\<open>detect_anomalies\<close>: the guard returns an empty-valued series over the index of the
  frame; \<^verbatim>\<open>except Exception\<close> catches whatever the body raises and returns the all-false
  series over the index of the frame. No path of the function raises.
\<close>

definition detect_anomalies :: "dataframe \<Rightarrow> string \<Rightarrow> int \<Rightarrow> real \<Rightarrow> error + entry list" where
  "detect_anomalies df column window threshold =
     (if df_empty df \<or> column \<notin> dom (columns df) then Inr (replicate (nrows df) Missing)
      else
        case z_score_flags (the (columns df column)) window threshold of
          Inr anomalies \<Rightarrow> Inr anomalies
        | Inl e \<Rightarrow> Inr (replicate (nrows df) (Flag False)))"

text \<open>A frame with one column, for concrete inputs.\<close>

definition single_column :: "string \<Rightarrow> cell list \<Rightarrow> dataframe" where
  "single_column c xs = \<lparr>nrows = length xs, columns = [c \<mapsto> xs]\<rparr>"

text \<open>The series of the specification's example: 30 values of 5.0, with 500.0 at index 15.\<close>

definition spike_series :: "cell list" where
  "spike_series = map (\<lambda>i. Num (Fin (if i = 15 then 500 else 5))) [0..<30]"

section \<open>Properties of the usage for a period\<close>

lemma clamped_diffs_sorted:
  "sorted (v # vs) \<Longrightarrow> sum_list (clamped_diffs v vs) = last (v # vs) - v"
proof (induction vs arbitrary: v)
  case Nil
  show ?case by simp
next
  case (Cons w ws)
  from Cons.prems have "v \<le> w" and "sorted (w # ws)" by simp_all
  with Cons.IH [of w] show ?case by simp
qed

lemma spec_interval_volume_sum:
  assumes "sorted tvs" and "tvs \<noteq> []"
  shows "sum_list (spec_interval_volume tvs) = last tvs - hd tvs"
proof -
  from assms(2) obtain v vs where tvs: "tvs = v # vs" by (cases tvs) auto
  with assms(1) clamped_diffs_sorted [of v vs] show ?thesis
    by (simp add: spec_interval_volume_def)
qed

lemma calculate_usage_sorted:
  assumes "sorted (map timestamp_key rs)" and "rs \<noteq> []"
  shows "calculate_usage_for_period rs
         = Inr (max 0 (total_volume (last rs) - total_volume (hd rs)))"
proof -
  have s: "sort_key timestamp_key rs = rs"
    using assms(1) by (rule sort_key_id_if_sorted)
  show ?thesis
  proof (cases "length rs < 2")
    case True
    with assms(2) obtain r where "rs = [r]"
      by (cases rs) (auto simp: less_Suc_eq)
    then show ?thesis by (simp add: calculate_usage_for_period_def)
  next
    case False
    with s assms(2) show ?thesis
      by (simp add: calculate_usage_for_period_def Let_def)
  qed
qed

lemma calculate_usage_nonneg: "\<exists>u. calculate_usage_for_period qs = Inr u \<and> 0 \<le> u"
  by (simp add: calculate_usage_for_period_def Let_def)

lemma timestamp_key_fill: "timestamp_key (fill_timestamp x) = timestamp_key x"
  by (simp add: timestamp_key_def fill_timestamp_def get_or_def)

lemma total_volume_fill: "total_volume (fill_timestamp x) = total_volume x"
  by (simp add: total_volume_def fill_timestamp_def get_or_def)

lemma insort_key_map_fill:
  "insort_key timestamp_key (fill_timestamp x) (map fill_timestamp xs)
   = map fill_timestamp (insort_key timestamp_key x xs)"
  by (induction xs) (simp_all add: timestamp_key_fill)

lemma sort_key_map_fill:
  "sort_key timestamp_key (map fill_timestamp xs)
   = map fill_timestamp (sort_key timestamp_key xs)"
  by (induction xs) (simp_all add: insort_key_map_fill)

lemma calculate_usage_fill:
  "calculate_usage_for_period (map fill_timestamp rs) = calculate_usage_for_period rs"
proof (cases "rs = []")
  case True
  then show ?thesis by simp
next
  case False
  then have ne: "sort_key timestamp_key rs \<noteq> []"
    by (metis length_sort length_0_conv)
  show ?thesis
    using False ne
    by (simp add: calculate_usage_for_period_def Let_def sort_key_map_fill hd_map last_map
        total_volume_fill)
qed

lemma sorted_hd_le_last:
  fixes tvs :: "real list"
  assumes "sorted tvs" and "tvs \<noteq> []"
  shows "hd tvs \<le> last tvs"
proof -
  from assms(2) obtain v vs where tvs: "tvs = v # vs" by (cases tvs) auto
  show ?thesis
  proof (cases "vs = []")
    case True
    with tvs show ?thesis by simp
  next
    case False
    then have "last vs \<in> set vs" by simp
    with assms(1) tvs False show ?thesis by auto
  qed
qed

text \<open>
  C5. For a list of readings that is sorted by timestamp and whose total volumes do not
  decrease, the usage that \<^verbatim>\<open>_calculate_usage_for_period\<close> returns is the sum of the
  specification's interval volumes \<open>max 0 (total_volume[i] - total_volume[i-1])\<close>, and it
  is the total volume of the last reading minus that of the first; on every input
  whatsoever the function returns a usage that is not negative.
\<close>

theorem period_usage_is_volume_difference:
  assumes "sorted (map timestamp_key rs)" and "sorted (map total_volume rs)"
  shows "calculate_usage_for_period rs
           = Inr (sum_list (spec_interval_volume (map total_volume rs)))
         \<and> (rs \<noteq> [] \<longrightarrow>
              calculate_usage_for_period rs
                = Inr (total_volume (last rs) - total_volume (hd rs)))
         \<and> (\<forall>qs. \<exists>u. calculate_usage_for_period qs = Inr u \<and> 0 \<le> u)"
proof (cases "rs = []")
  case True
  then show ?thesis
    using calculate_usage_nonneg
    by (simp add: calculate_usage_for_period_def spec_interval_volume_def)
next
  case False
  let ?tvs = "map total_volume rs"
  from False have ne: "?tvs \<noteq> []" by simp
  have d: "sum_list (spec_interval_volume ?tvs)
           = total_volume (last rs) - total_volume (hd rs)"
    using spec_interval_volume_sum [OF assms(2) ne] False by (simp add: last_map hd_map)
  have "total_volume (hd rs) \<le> total_volume (last rs)"
    using sorted_hd_le_last [OF assms(2) ne] False by (simp add: last_map hd_map)
  then have "max 0 (total_volume (last rs) - total_volume (hd rs))
             = total_volume (last rs) - total_volume (hd rs)"
    by simp
  with calculate_usage_sorted [OF assms(1) False] d calculate_usage_nonneg show ?thesis
    by simp
qed

theorem period_usage_is_volume_difference_witness:
  "sorted (map timestamp_key [mk_reading 10 100, mk_reading 20 100.5, mk_reading 30 103])
   \<and> sorted (map total_volume [mk_reading 10 100, mk_reading 20 100.5, mk_reading 30 103])
   \<and> calculate_usage_for_period
        [mk_reading 10 100, mk_reading 20 100.5, mk_reading 30 103] = Inr 3
   \<and> sum_list (spec_interval_volume
        (map total_volume [mk_reading 10 100, mk_reading 20 100.5, mk_reading 30 103])) = 3"
  using period_usage_is_volume_difference
    [of "[mk_reading 10 100, mk_reading 20 100.5, mk_reading 30 103]"]
  by (simp add: timestamp_key_def total_volume_def get_or_def mk_reading_def
      spec_interval_volume_def)

text \<open>
  C9, as the specification states it, fails: a reading without a timestamp raises nothing.
  Here the second reading has no \<^verbatim>\<open>timestamp\<close>; the call returns the usage 2.
\<close>

theorem missing_timestamp_counterexample:
  "calculate_usage_for_period
     [[''timestamp'' \<mapsto> 5, ''total_volume'' \<mapsto> 12], [''total_volume'' \<mapsto> 10]] = Inr 2
   \<and> calculate_usage_for_period
     [[''timestamp'' \<mapsto> 5, ''total_volume'' \<mapsto> 12], [''total_volume'' \<mapsto> 10]]
       \<noteq> Inl (InvalidReading ''timestamp'')"
  by (simp add: calculate_usage_for_period_def timestamp_key_def total_volume_def get_or_def)

text \<open>
  C9, amended. For every list with a reading that has no \<^verbatim>\<open>timestamp\<close> field,
  \<^verbatim>\<open>_calculate_usage_for_period\<close> raises no error: it returns a usage that is not
  negative, the same as for the list in which every such reading carries the timestamp 0
  (\<^verbatim>\<open>x.get('timestamp', 0)\<close> is the sort key).
\<close>

theorem missing_timestamp_ordered_as_zero:
  assumes "r \<in> set rs" and "r ''timestamp'' = None"
  shows "\<exists>u. calculate_usage_for_period rs = Inr u \<and> 0 \<le> u
             \<and> calculate_usage_for_period (map fill_timestamp rs) = Inr u"
  using calculate_usage_nonneg [of rs] by (auto simp: calculate_usage_fill)

theorem missing_timestamp_ordered_as_zero_witness:
  "[''total_volume'' \<mapsto> 10 :: real]
     \<in> set [[''timestamp'' \<mapsto> 5, ''total_volume'' \<mapsto> 12], [''total_volume'' \<mapsto> 10]]
   \<and> [''total_volume'' \<mapsto> 10 :: real] ''timestamp'' = None
   \<and> calculate_usage_for_period
        [[''timestamp'' \<mapsto> 5, ''total_volume'' \<mapsto> 12], [''total_volume'' \<mapsto> 10]] = Inr 2
   \<and> calculate_usage_for_period
        [[''timestamp'' \<mapsto> 5, ''total_volume'' \<mapsto> 12],
         [''timestamp'' \<mapsto> 0, ''total_volume'' \<mapsto> 10]] = Inr 2"
  using missing_timestamp_ordered_as_zero
    [of "[''total_volume'' \<mapsto> 10]"
        "[[''timestamp'' \<mapsto> 5, ''total_volume'' \<mapsto> 12], [''total_volume'' \<mapsto> 10]]"]
  by (simp add: calculate_usage_for_period_def timestamp_key_def total_volume_def get_or_def)

section \<open>Properties of the usage accounting\<close>

subsection \<open>Rounding and volumes\<close>







subsection \<open>The calendar\<close>

lemma days_in_month_ge: "28 \<le> days_in_month y m"
  by (simp add: days_in_month_def)

lemma add_hour_hour: "hour (add_hour d) \<noteq> hour d"
  by (simp add: add_hour_def)

lemma add_hour_day:
  assumes "valid_datetime d"
  shows "(calendar_day (add_hour d) \<noteq> calendar_day d) = (day (add_hour d) \<noteq> day d)"
proof -
  have "28 \<le> days_in_month (year d) (month d)" by (rule days_in_month_ge)
  then show ?thesis using assms
    by (auto simp: add_hour_def calendar_day_def valid_datetime_def)
qed

lemma add_hour_valid:
  assumes "valid_datetime d"
  shows "valid_datetime (add_hour d)"
proof -
  have "28 \<le> days_in_month y m" for y m by (rule days_in_month_ge)
  from this [of "year d" "Suc (month d)"] this [of "year d + 1" 1] assms
  show ?thesis
    by (auto simp: add_hour_def valid_datetime_def)
qed

lemma funpow_add_hour_valid: "valid_datetime d \<Longrightarrow> valid_datetime ((add_hour ^^ k) d)"
  by (induction k) (simp_all add: add_hour_valid)

lemma date_range_length: "length (date_range a b) = range_periods a b"
  by (simp add: date_range_def)

lemma date_range_nth:
  "k < length (date_range a b) \<Longrightarrow> date_range a b ! k = (add_hour ^^ k) a"
  by (simp add: date_range_def)

lemma date_range_step:
  assumes "0 < i" and "i < length (date_range a b)"
  shows "date_range a b ! i = add_hour (date_range a b ! (i - 1))"
proof -
  from assms(1) obtain k where i: "i = Suc k" by (cases i) auto
  with assms(2) show ?thesis by (simp add: date_range_nth)
qed

lemma date_range_valid:
  "valid_datetime a \<Longrightarrow> k < length (date_range a b) \<Longrightarrow> valid_datetime (date_range a b ! k)"
  by (simp add: date_range_nth funpow_add_hour_valid)

text \<open>Consecutive entries of the range: the hour-of-day always differs, and the
  day-of-month differs exactly when the calendar day does.\<close>

lemma date_range_consecutive:
  assumes "valid_datetime a" and "0 < i" and "i < length (date_range a b)"
  shows "hour (date_range a b ! i) \<noteq> hour (date_range a b ! (i - 1))"
    and "(calendar_day (date_range a b ! i) \<noteq> calendar_day (date_range a b ! (i - 1)))
         = (day (date_range a b ! i) \<noteq> day (date_range a b ! (i - 1)))"
    and "calendar_hour (date_range a b ! i) \<noteq> calendar_hour (date_range a b ! (i - 1))"
proof -
  let ?p = "date_range a b ! (i - 1)"
  have s: "date_range a b ! i = add_hour ?p" using assms(2,3) by (rule date_range_step)
  have v: "valid_datetime ?p" using assms by (intro date_range_valid) auto
  show h: "hour (date_range a b ! i) \<noteq> hour ?p" by (simp add: s add_hour_hour)
  show "(calendar_day (date_range a b ! i) \<noteq> calendar_day ?p)
         = (day (date_range a b ! i) \<noteq> day ?p)"
    by (simp only: s add_hour_day [OF v])
  show "calendar_hour (date_range a b ! i) \<noteq> calendar_hour ?p"
    using h by (simp add: calendar_hour_def)
qed

subsection \<open>The loop\<close>

lemma loop_body_last_hour: "last_hour (loop_body rnd s x) = hour (stamp x)"
  by (simp add: loop_body_def Let_def)

lemma loop_body_last_day: "last_day (loop_body rnd s x) = day (stamp x)"
  by (simp add: loop_body_def Let_def)

lemma loop_body_hourly_sum:
  "hourly_sum (loop_body rnd s x)
   = (if hour (stamp x) \<noteq> last_hour s then 0 else hourly_sum s) + sample_vol rnd x"
  by (simp add: loop_body_def Let_def)

lemma loop_body_daily_sum:
  "daily_sum (loop_body rnd s x)
   = (if day (stamp x) \<noteq> last_day s then 0 else daily_sum s) + sample_vol rnd x"
  by (simp add: loop_body_def Let_def)

lemma loop_body_hourly_usage:
  "hourly_usage (loop_body rnd s x) = hourly_usage s @ [rnd (hourly_sum (loop_body rnd s x))]"
  by (simp add: loop_body_def Let_def)

lemma loop_body_daily_usage:
  "daily_usage (loop_body rnd s x) = daily_usage s @ [rnd (daily_sum (loop_body rnd s x))]"
  by (simp add: loop_body_def Let_def)

lemma loop_body_volume:
  "volume (loop_body rnd s x) = volume s @ [sample_vol rnd x]"
  by (simp add: loop_body_def Let_def)

text \<open>Later iterations leave the rows already written as they are.\<close>

lemma foldl_loop_body_columns:
  "length (hourly_usage (foldl (loop_body rnd) s zs)) = length (hourly_usage s) + length zs"
  "length (daily_usage (foldl (loop_body rnd) s zs)) = length (daily_usage s) + length zs"
  "length (volume (foldl (loop_body rnd) s zs)) = length (volume s) + length zs"
  "i < length (hourly_usage s) \<Longrightarrow>
     hourly_usage (foldl (loop_body rnd) s zs) ! i = hourly_usage s ! i"
  "j < length (daily_usage s) \<Longrightarrow>
     daily_usage (foldl (loop_body rnd) s zs) ! j = daily_usage s ! j"
  "k < length (volume s) \<Longrightarrow> volume (foldl (loop_body rnd) s zs) ! k = volume s ! k"
  by (induction zs arbitrary: s)
     (simp_all add: loop_body_hourly_usage loop_body_daily_usage loop_body_volume nth_append)

lemma foldl_loop_body_last:
  assumes "ys \<noteq> []"
  shows "last_hour (foldl (loop_body rnd) s0 ys) = hour (stamp (last ys))"
    and "last_day (foldl (loop_body rnd) s0 ys) = day (stamp (last ys))"
    and "last (hourly_usage (foldl (loop_body rnd) s0 ys))
         = rnd (hourly_sum (foldl (loop_body rnd) s0 ys))"
    and "last (daily_usage (foldl (loop_body rnd) s0 ys))
         = rnd (daily_sum (foldl (loop_body rnd) s0 ys))"
proof -
  from assms obtain zs z where ys: "ys = zs @ [z]"
    by (metis append_butlast_last_id)
  show "last_hour (foldl (loop_body rnd) s0 ys) = hour (stamp (last ys))"
    by (simp add: ys loop_body_last_hour)
  show "last_day (foldl (loop_body rnd) s0 ys) = day (stamp (last ys))"
    by (simp add: ys loop_body_last_day)
  show "last (hourly_usage (foldl (loop_body rnd) s0 ys))
         = rnd (hourly_sum (foldl (loop_body rnd) s0 ys))"
    by (simp add: ys loop_body_hourly_usage)
  show "last (daily_usage (foldl (loop_body rnd) s0 ys))
         = rnd (daily_sum (foldl (loop_body rnd) s0 ys))"
    by (simp add: ys loop_body_daily_usage)
qed

lemma nth_snoc_length: "length ys = i \<Longrightarrow> (ys @ [x]) ! i = x"
  by auto

lemma nth_pred_length: "length ys = i \<Longrightarrow> 0 < i \<Longrightarrow> ys ! (i - 1) = last ys"
  by (cases ys) (auto simp: last_conv_nth)

text \<open>
  Row \<open>i\<close> and row \<open>i - 1\<close> of the columns when the loop has ended, in terms of the
  accumulators \<open>H\<close> and \<open>D\<close> after row \<open>i - 1\<close>.
\<close>

lemma loop_rows:
  fixes rnd :: "real \<Rightarrow> real" and d0 :: datetime and xs :: "sample list"
  assumes i: "0 < i" "i < length xs"
  defines "s \<equiv> foldl (loop_body rnd) (loop_init d0) xs"
  shows "\<exists>H D. volume s ! i = sample_vol rnd (xs ! i)
           \<and> hourly_usage s ! (i - 1) = rnd H
           \<and> hourly_usage s ! i
               = rnd ((if hour (stamp (xs ! i)) \<noteq> hour (stamp (xs ! (i - 1))) then 0 else H)
                      + sample_vol rnd (xs ! i))
           \<and> daily_usage s ! (i - 1) = rnd D
           \<and> daily_usage s ! i
               = rnd ((if day (stamp (xs ! i)) \<noteq> day (stamp (xs ! (i - 1))) then 0 else D)
                      + sample_vol rnd (xs ! i))"
proof -
  let ?p = "take i xs" and ?x = "xs ! i" and ?r = "drop (Suc i) xs"
  let ?sp = "foldl (loop_body rnd) (loop_init d0) ?p"
  let ?sx = "loop_body rnd ?sp ?x"
  have xs: "xs = ?p @ ?x # ?r" using i(2) by (rule id_take_nth_drop)
  have pne: "?p \<noteq> []" using i by auto
  have lastp: "last ?p = xs ! (i - 1)"
  proof -
    have "last ?p = ?p ! (length ?p - 1)" using pne by (rule last_conv_nth)
    also have "\<dots> = xs ! (i - 1)" using i by (simp add: min_def)
    finally show ?thesis .
  qed
  have "s = foldl (loop_body rnd) (loop_init d0) (?p @ ?x # ?r)"
    unfolding s_def using xs by simp
  then have s: "s = foldl (loop_body rnd) ?sx ?r" by simp
  have lp: "length (hourly_usage ?sp) = i" "length (daily_usage ?sp) = i"
    "length (volume ?sp) = i"
    using i(2) by (simp_all add: foldl_loop_body_columns loop_init_def)
  have hx: "hourly_usage ?sx = hourly_usage ?sp @ [rnd (hourly_sum ?sx)]"
    by (rule loop_body_hourly_usage)
  have dx: "daily_usage ?sx = daily_usage ?sp @ [rnd (daily_sum ?sx)]"
    by (rule loop_body_daily_usage)
  have vx: "volume ?sx = volume ?sp @ [sample_vol rnd ?x]"
    by (rule loop_body_volume)
  have v: "volume s ! i = sample_vol rnd ?x"
    unfolding s using foldl_loop_body_columns(6) [of i ?sx rnd ?r] lp(3) by (simp add: vx nth_snoc_length)
  have hi: "hourly_usage s ! i = rnd (hourly_sum ?sx)"
    unfolding s using foldl_loop_body_columns(4) [of i ?sx rnd ?r] lp(1) by (simp add: hx nth_snoc_length)
  have di: "daily_usage s ! i = rnd (daily_sum ?sx)"
    unfolding s using foldl_loop_body_columns(5) [of i ?sx rnd ?r] lp(2) by (simp add: dx nth_snoc_length)
  have hp: "hourly_usage s ! (i - 1) = rnd (hourly_sum ?sp)"
  proof -
    have "hourly_usage s ! (i - 1) = hourly_usage ?sx ! (i - 1)"
      unfolding s using foldl_loop_body_columns(4) [of "i - 1" ?sx rnd ?r] lp(1) i(1)
      by (simp add: hx)
    also have "\<dots> = hourly_usage ?sp ! (i - 1)" using lp(1) i(1) by (simp add: hx nth_append)
    also have "\<dots> = last (hourly_usage ?sp)" using lp(1) i(1) by (rule nth_pred_length)
    also have "\<dots> = rnd (hourly_sum ?sp)" using pne by (rule foldl_loop_body_last(3))
    finally show ?thesis .
  qed
  have dp: "daily_usage s ! (i - 1) = rnd (daily_sum ?sp)"
  proof -
    have "daily_usage s ! (i - 1) = daily_usage ?sx ! (i - 1)"
      unfolding s using foldl_loop_body_columns(5) [of "i - 1" ?sx rnd ?r] lp(2) i(1)
      by (simp add: dx)
    also have "\<dots> = daily_usage ?sp ! (i - 1)" using lp(2) i(1) by (simp add: dx nth_append)
    also have "\<dots> = last (daily_usage ?sp)" using lp(2) i(1) by (rule nth_pred_length)
    also have "\<dots> = rnd (daily_sum ?sp)" using pne by (rule foldl_loop_body_last(4))
    finally show ?thesis .
  qed
  have lh: "last_hour ?sp = hour (stamp (xs ! (i - 1)))"
    using foldl_loop_body_last(1) [OF pne, of rnd "loop_init d0"] lastp by simp
  have ld: "last_day ?sp = day (stamp (xs ! (i - 1)))"
    using foldl_loop_body_last(2) [OF pne, of rnd "loop_init d0"] lastp by simp
  have hs: "hourly_sum ?sx
            = (if hour (stamp ?x) \<noteq> hour (stamp (xs ! (i - 1))) then 0 else hourly_sum ?sp)
              + sample_vol rnd ?x"
    by (simp only: loop_body_hourly_sum lh)
  have ds: "daily_sum ?sx
            = (if day (stamp ?x) \<noteq> day (stamp (xs ! (i - 1))) then 0 else daily_sum ?sp)
              + sample_vol rnd ?x"
    by (simp only: loop_body_daily_sum ld)
  from v hp hi dp di hs ds show ?thesis by metis
qed


subsection \<open>The frame\<close>

lemma inject_anomaly_columns:
  "volume (foldl inject_anomaly df idxs) = volume df"
  "hourly_usage (foldl inject_anomaly df idxs) = hourly_usage df"
  "daily_usage (foldl inject_anomaly df idxs) = daily_usage df"
  by (induction idxs arbitrary: df) (simp_all add: inject_anomaly_def)

lemma samples_nth:
  "k < length dates \<Longrightarrow> stamp (samples dates draws ! k) = dates ! k"
  "k < length dates \<Longrightarrow> flow_noise (samples dates draws ! k) = fst (draws k)"
  "length (samples dates draws) = length dates"
  by (simp_all add: samples_def)

text \<open>
  A range of at least three entries makes a frame, and rows \<open>i - 1\<close> and \<open>i\<close> of its
  usage columns are the rounded accumulators \<open>H\<close>, \<open>D\<close> after row \<open>i - 1\<close> and, after
  row \<open>i\<close>, the accumulator restarted from 0 or kept.
\<close>

lemma demo_frame_rows:
  assumes n: "3 \<le> length dates" and i: "0 < i" "i < length dates"
  shows "\<exists>df H D. demo_frame rnd dates draws idxs = Inr df
           \<and> volume df ! i = sample_vol rnd (samples dates draws ! i)
           \<and> hourly_usage df ! (i - 1) = rnd H
           \<and> hourly_usage df ! i
               = rnd ((if hour (dates ! i) \<noteq> hour (dates ! (i - 1)) then 0 else H)
                      + volume df ! i)
           \<and> daily_usage df ! (i - 1) = rnd D
           \<and> daily_usage df ! i
               = rnd ((if day (dates ! i) \<noteq> day (dates ! (i - 1)) then 0 else D)
                      + volume df ! i)"
proof -
  let ?xs = "samples dates draws"
  have len: "length ?xs = length dates" by (rule samples_nth(3))
  with n obtain x rest where xs: "?xs = x # rest" by (cases ?xs) auto
  let ?s = "foldl (loop_body rnd) (loop_init (stamp x)) ?xs"
  have u: "usage_loop rnd ?xs = Inr ?s" by (simp add: usage_loop_def xs)
  let ?df = "foldl inject_anomaly ?s idxs"
  have f: "demo_frame rnd dates draws idxs = Inr ?df"
    using n by (simp add: demo_frame_def u)
  from i len have i': "0 < i" "i < length ?xs" by simp_all
  from loop_rows [OF i', of rnd "stamp x"] obtain H D where
    r: "volume ?s ! i = sample_vol rnd (?xs ! i)"
       "hourly_usage ?s ! (i - 1) = rnd H"
       "hourly_usage ?s ! i
          = rnd ((if hour (stamp (?xs ! i)) \<noteq> hour (stamp (?xs ! (i - 1))) then 0 else H)
                 + sample_vol rnd (?xs ! i))"
       "daily_usage ?s ! (i - 1) = rnd D"
       "daily_usage ?s ! i
          = rnd ((if day (stamp (?xs ! i)) \<noteq> day (stamp (?xs ! (i - 1))) then 0 else D)
                 + sample_vol rnd (?xs ! i))"
    by blast
  have st: "stamp (?xs ! i) = dates ! i" "stamp (?xs ! (i - 1)) = dates ! (i - 1)"
    using i by (simp_all add: samples_nth(1))
  from r have
    "volume ?df ! i = sample_vol rnd (?xs ! i)"
    "hourly_usage ?df ! (i - 1) = rnd H"
    "hourly_usage ?df ! i
       = rnd ((if hour (dates ! i) \<noteq> hour (dates ! (i - 1)) then 0 else H) + volume ?df ! i)"
    "daily_usage ?df ! (i - 1) = rnd D"
    "daily_usage ?df ! i
       = rnd ((if day (dates ! i) \<noteq> day (dates ! (i - 1)) then 0 else D) + volume ?df ! i)"
    by (simp_all only: inject_anomaly_columns st)
  with f show ?thesis by blast
qed

text \<open>The same on the hourly range of the two generators.\<close>

lemma hourly_range_rows:
  assumes v: "valid_datetime a" and n: "3 \<le> length (date_range a b)"
    and i: "0 < i" "i < length (date_range a b)"
  shows "\<exists>df D. demo_frame rnd (date_range a b) draws idxs = Inr df
           \<and> volume df ! i = sample_vol rnd (samples (date_range a b) draws ! i)
           \<and> hourly_usage df ! i = rnd (0 + volume df ! i)
           \<and> daily_usage df ! (i - 1) = rnd D
           \<and> daily_usage df ! i
               = rnd ((if calendar_day (date_range a b ! i)
                          \<noteq> calendar_day (date_range a b ! (i - 1)) then 0 else D)
                      + volume df ! i)"
proof -
  let ?d = "date_range a b"
  from demo_frame_rows [OF n i, of rnd draws idxs] obtain df H D where
    r: "demo_frame rnd ?d draws idxs = Inr df"
       "volume df ! i = sample_vol rnd (samples ?d draws ! i)"
       "hourly_usage df ! i
          = rnd ((if hour (?d ! i) \<noteq> hour (?d ! (i - 1)) then 0 else H) + volume df ! i)"
       "daily_usage df ! (i - 1) = rnd D"
       "daily_usage df ! i
          = rnd ((if day (?d ! i) \<noteq> day (?d ! (i - 1)) then 0 else D) + volume df ! i)"
    by blast
  note c = date_range_consecutive [OF v i]
  have h: "hourly_usage df ! i = rnd (0 + volume df ! i)"
    using r(3) c(1) by simp
  have d: "daily_usage df ! i
           = rnd ((if calendar_day (?d ! i) \<noteq> calendar_day (?d ! (i - 1)) then 0 else D)
                  + volume df ! i)"
    using r(5) c(2) by simp
  from r(1,2,4) h d show ?thesis by blast
qed


subsection \<open>Concrete ranges\<close>

lemma upt_4: "[0..<4] = [0, 1, 2, 3 :: nat]"
  by code_simp

lemma funpow_numeral_unroll:
  "((f :: 'a \<Rightarrow> 'a) ^^ numeral k) x = f ((f ^^ pred_numeral k) x)"
  by (simp add: numeral_eq_Suc)

lemma night_periods: "range_periods (dt 3 9 22 15) (dt 3 10 2 0) = 4"
  by (simp add: range_periods_def to_microseconds_def dt_def days_before_year_def
      days_before_month_def Let_def days_in_month_def is_leap_def)

lemma night_range:
  "date_range (dt 3 9 22 15) (dt 3 10 2 0)
   = [dt 3 9 22 15, dt 3 9 23 15, dt 3 10 0 15, dt 3 10 1 15]"
  by (simp add: date_range_def night_periods upt_4 funpow_numeral_unroll)
     (simp add: dt_def add_hour_def days_in_month_def is_leap_def)

lemma night_frame:
  "map_sum id volume
     (generate_demo_historical_data decimal_round2 (dt 3 9 22 15) (dt 3 10 2 0) no_noise [2, 0, 3])
     = Inr [0.29, 0.19, 0.14, 0.1]"
  "map_sum id hourly_usage
     (generate_demo_historical_data decimal_round2 (dt 3 9 22 15) (dt 3 10 2 0) no_noise [2, 0, 3])
     = Inr [0.29, 0.19, 0.14, 0.1]"
  "map_sum id daily_usage
     (generate_demo_historical_data decimal_round2 (dt 3 9 22 15) (dt 3 10 2 0) no_noise [2, 0, 3])
     = Inr [0.29, 0.48, 0.14, 0.24]"
  by (simp_all add: generate_demo_historical_data_def night_range demo_frame_def samples_def
      upt_4)
     (simp_all add: usage_loop_def dt_def no_noise_def loop_init_def loop_body_def
      sample_vol_def sample_flow_def daily_pattern_def Let_def decimal_round2_def
      round_half_even_def inject_anomaly_def)

lemma week_periods: "length (date_range (dt 3 5 10 30) (dt 3 12 10 30)) = 169"
  by (simp add: date_range_def range_periods_def to_microseconds_def dt_def
      days_before_year_def days_before_month_def Let_def days_in_month_def is_leap_def)

lemma week_rows:
  "date_range (dt 3 5 10 30) (dt 3 12 10 30) ! 12 = dt 3 5 22 30"
  "date_range (dt 3 5 10 30) (dt 3 12 10 30) ! 13 = dt 3 5 23 30"
  "date_range (dt 3 5 10 30) (dt 3 12 10 30) ! 14 = dt 3 6 0 30"
  by (simp_all add: date_range_nth week_periods funpow_numeral_unroll)
     (simp_all add: dt_def add_hour_def days_in_month_def is_leap_def)

lemma dt_valid: "valid_datetime (dt 3 9 22 15)" "valid_datetime (dt 3 5 10 30)"
  by (simp_all add: valid_datetime_def dt_def days_in_month_def)




text \<open>
  C7. For every pair of consecutive readings, both generators reset the daily
  accumulator to 0 before they add the volume of the new reading exactly when the
  calendar day (year, month and day) of the two readings differs: then the daily usage
  of the row is the (rounded) volume of that row alone, and when the calendar day is
  unchanged it is the (rounded) accumulator of the previous row plus that volume. The
  readings are the entries of the hourly range, where the day-of-month number changes
  exactly when the calendar day does.
\<close>

theorem daily_reset_exactly_on_calendar_day_change:
  assumes "valid_datetime start_date"
    and "3 \<le> length (date_range start_date end_date)"
    and "0 < i" and "i < length (date_range start_date end_date)"
  shows "(\<exists>df. generate_demo_historical_data py_round start_date end_date draws anomaly_indices
               = Inr df
             \<and> (if calendar_day (date_range start_date end_date ! i)
                     \<noteq> calendar_day (date_range start_date end_date ! (i - 1))
                 then daily_usage df ! i = py_round (0 + volume df ! i)
                 else \<exists>D. daily_usage df ! (i - 1) = py_round D
                          \<and> daily_usage df ! i = py_round (D + volume df ! i)))
       \<and> (\<exists>df. generate_demo_data start_date end_date draws anomaly_indices = Inr df
             \<and> (if calendar_day (date_range start_date end_date ! i)
                     \<noteq> calendar_day (date_range start_date end_date ! (i - 1))
                 then daily_usage df ! i = 0 + volume df ! i
                 else daily_usage df ! i = daily_usage df ! (i - 1) + volume df ! i))"
proof -
  let ?d = "date_range start_date end_date"
  have r: "\<exists>df. demo_frame rnd ?d draws anomaly_indices = Inr df
             \<and> (if calendar_day (?d ! i) \<noteq> calendar_day (?d ! (i - 1))
                 then daily_usage df ! i = rnd (0 + volume df ! i)
                 else \<exists>D. daily_usage df ! (i - 1) = rnd D
                          \<and> daily_usage df ! i = rnd (D + volume df ! i))" for rnd
  proof -
    from hourly_range_rows [OF assms, of rnd draws anomaly_indices] obtain df D where
      "demo_frame rnd ?d draws anomaly_indices = Inr df"
      "daily_usage df ! (i - 1) = rnd D"
      "daily_usage df ! i
         = rnd ((if calendar_day (?d ! i) \<noteq> calendar_day (?d ! (i - 1)) then 0 else D)
                + volume df ! i)"
      by blast
    then show ?thesis by (cases "calendar_day (?d ! i) \<noteq> calendar_day (?d ! (i - 1))") auto
  qed
  from r [of "\<lambda>v. v"] have
    "\<exists>df. demo_frame (\<lambda>v. v) ?d draws anomaly_indices = Inr df
             \<and> (if calendar_day (?d ! i) \<noteq> calendar_day (?d ! (i - 1))
                 then daily_usage df ! i = 0 + volume df ! i
                 else daily_usage df ! i = daily_usage df ! (i - 1) + volume df ! i)"
    by auto
  with r [of py_round] show ?thesis
    unfolding generate_demo_historical_data_def generate_demo_data_def by blast
qed

theorem daily_reset_exactly_on_calendar_day_change_witness:
  "valid_datetime (dt 3 9 22 15)
   \<and> 3 \<le> length (date_range (dt 3 9 22 15) (dt 3 10 2 0))
   \<and> map_sum id volume
        (generate_demo_historical_data decimal_round2 (dt 3 9 22 15) (dt 3 10 2 0)
           no_noise [2, 0, 3]) = Inr [0.29, 0.19, 0.14, 0.1]
   \<and> map_sum id daily_usage
        (generate_demo_historical_data decimal_round2 (dt 3 9 22 15) (dt 3 10 2 0)
           no_noise [2, 0, 3]) = Inr [0.29, 0.48, 0.14, 0.24]
   \<and> valid_datetime (dt 3 5 10 30)
   \<and> 3 \<le> length (date_range (dt 3 5 10 30) (dt 3 12 10 30))
   \<and> 14 < length (date_range (dt 3 5 10 30) (dt 3 12 10 30))
   \<and> calendar_day (date_range (dt 3 5 10 30) (dt 3 12 10 30) ! 14)
       \<noteq> calendar_day (date_range (dt 3 5 10 30) (dt 3 12 10 30) ! 13)
   \<and> calendar_day (date_range (dt 3 5 10 30) (dt 3 12 10 30) ! 13)
       = calendar_day (date_range (dt 3 5 10 30) (dt 3 12 10 30) ! 12)
   \<and> (\<exists>df. generate_demo_data (dt 3 5 10 30) (dt 3 12 10 30) no_noise [7, 0, 100] = Inr df
          \<and> daily_usage df ! 14 = 0 + volume df ! 14
          \<and> daily_usage df ! 13 = daily_usage df ! 12 + volume df ! 13)"
proof -
  let ?w = "date_range (dt 3 5 10 30) (dt 3 12 10 30)"
  have a: "3 \<le> length (date_range (dt 3 9 22 15) (dt 3 10 2 0))"
    by (simp add: night_range)
  have c: "3 \<le> length ?w" "14 < length ?w" "13 < length ?w"
    by (simp_all add: week_periods)
  have d: "calendar_day (?w ! 14) \<noteq> calendar_day (?w ! 13)"
    by (simp add: week_rows) (simp add: calendar_day_def dt_def)
  have e: "calendar_day (?w ! 13) = calendar_day (?w ! 12)"
    by (simp add: week_rows) (simp add: calendar_day_def dt_def)
  have p: "(0::nat) < 14" "(0::nat) < 13" by simp_all
  from daily_reset_exactly_on_calendar_day_change
         [OF dt_valid(2) c(1) p(1) c(2), of "\<lambda>v. v" no_noise "[7, 0, 100]"]
       daily_reset_exactly_on_calendar_day_change
         [OF dt_valid(2) c(1) p(2) c(3), of "\<lambda>v. v" no_noise "[7, 0, 100]"]
       d e
  have f: "\<exists>df. generate_demo_data (dt 3 5 10 30) (dt 3 12 10 30) no_noise [7, 0, 100] = Inr df
          \<and> daily_usage df ! 14 = 0 + volume df ! 14
          \<and> daily_usage df ! 13 = daily_usage df ! 12 + volume df ! 13"
    by auto
  from dt_valid a c(1,2) d e f night_frame(1,3) show ?thesis by (intro conjI)
qed





section \<open>Properties of the anomaly detection\<close>

lemma z_test:
  assumes "0 < v" and "0 \<le> t"
  shows "fl_gt (fl_abs (fl_div (Fin d) (fl_sqrt (Fin v)))) t = (t\<^sup>2 * v < d\<^sup>2)"
proof -
  have sv: "0 < sqrt v" using assms(1) by simp
  have a: "t * sqrt v = sqrt (t\<^sup>2 * v)"
    using assms(2) by (simp add: real_sqrt_mult)
  have b: "\<bar>d\<bar> = sqrt (d\<^sup>2)" by simp
  have "(t < \<bar>d\<bar> / sqrt v) = (t * sqrt v < \<bar>d\<bar>)"
    using sv by (simp add: pos_less_divide_eq)
  also have "\<dots> = (sqrt (t\<^sup>2 * v) < sqrt (d\<^sup>2))"
    by (simp only: a b [symmetric])
  also have "\<dots> = (t\<^sup>2 * v < d\<^sup>2)"
    by (rule real_sqrt_less_iff)
  finally show ?thesis using assms(1) by simp
qed

lemma numeric_values_length: "numeric_values col = Some vals \<Longrightarrow> length vals = length col"
  by (induction col arbitrary: vals rule: numeric_values.induct) auto

lemma numeric_values_Obj: "Obj s \<in> set col \<Longrightarrow> numeric_values col = None"
  by (induction col rule: numeric_values.induct) auto

lemma numeric_values_nth:
  "numeric_values col = Some vals \<Longrightarrow> i < length col \<Longrightarrow> col ! i = Num (vals ! i)"
  by (induction col arbitrary: vals i rule: numeric_values.induct) (auto simp: nth_Cons')

text \<open>The entry of row \<open>i\<close> when nothing raises.\<close>

lemma z_score_flags_numeric:
  assumes "numeric_values col = Some vals" and "0 \<le> w"
  shows "z_score_flags col w t =
         Inr (map (\<lambda>i. Flag (fl_gt (fl_abs (fl_div (fl_sub (vals ! i) (roll_mean vals w i))
                                            (fl_sqrt (roll_var vals w i)))) t))
                [0..<length vals])"
  using assms
  by (auto simp: z_score_flags_def rolling_mean_def rolling_std_def Let_def
      intro!: nth_equalityI)


lemma numeric_values_map_Num: "numeric_values (map Num vs) = Some vs"
  by (induction vs) auto

lemma upt_30:
  "[0..<30] = [0, 1, 2, 3, 4, 5, 6, 7, 8, 9, 10, 11, 12, 13, 14, 15, 16, 17, 18, 19,
               20, 21, 22, 23, 24, 25, 26, 27, 28, 29 :: nat]"
  by code_simp

lemma spike_values:
  "numeric_values spike_series = Some (map (\<lambda>i. Fin (if i = 15 then 500 else 5)) [0..<30])"
  using numeric_values_map_Num [of "map (\<lambda>i. Fin (if i = 15 then 500 else 5)) [0..<30]"]
  by (simp add: spike_series_def comp_def)

lemma spike_flags: "z_score_flags spike_series 20 3 = Inr (map (\<lambda>i. Flag (i = 15)) [0..<30])"
  apply (subst z_score_flags_numeric [OF spike_values])
   apply simp
  apply (simp add: upt_30 roll_mean_def roll_var_def observations_def window_bounds_def Let_def z_test
      del: fl_sqrt.simps(1))
  apply (simp add: z_test power2_eq_square del: fl_sqrt.simps(1))
  done


lemma fl_sub_NaN [simp]: "fl_sub x NaN = NaN"
  by (cases x) simp_all

lemma fl_div_NaN [simp]: "fl_div x NaN = NaN"
  by (cases x) simp_all

lemma finite_values_length: "length (finite_values vs) \<le> length vs"
  by (induction vs rule: finite_values.induct) auto

lemma finite_values_const:
  "\<forall>x \<in> set vs. x = Fin v \<Longrightarrow> finite_values vs = replicate (length vs) v"
  by (induction vs rule: finite_values.induct) auto

lemma observations_length: "length (observations vals w i) \<le> length vals"
proof -
  obtain s e where b: "window_bounds w (length vals) i = (s, e)" by (cases "window_bounds w (length vals) i")
  have "length (finite_values (take (e - s) (drop s vals))) \<le> length (take (e - s) (drop s vals))"
    by (rule finite_values_length)
  also have "\<dots> \<le> length vals" by simp
  finally show ?thesis by (simp add: observations_def b)
qed

lemma roll_mean_short: "int (length vals) < w \<Longrightarrow> roll_mean vals w i = NaN"
  using observations_length [of vals w i] by (simp add: roll_mean_def Let_def)

lemma window_bounds_off:
  "window_bounds w n i =
     (nat (min (max (int i + 1 + (w - 1) div 2 - w) 0) (int n)),
      nat (min (max (int i + 1 + (w - 1) div 2) 0) (int n)))"
  by (simp add: window_bounds_def Let_def)

lemma clip_contains_row:
  fixes off w :: int
  assumes "0 \<le> off" and "off \<le> w - 1" and "i < n"
  shows "nat (min (max (int i + 1 + off - w) 0) (int n)) \<le> i
         \<and> i < nat (min (max (int i + 1 + off) 0) (int n))"
  using assms by linarith

lemma clip_width:
  fixes off w :: int
  assumes "0 \<le> w"
  shows "int (nat (min (max (int i + 1 + off) 0) (int n))
              - nat (min (max (int i + 1 + off - w) 0) (int n))) \<le> w"
  using assms by linarith

lemma window_contains_row:
  assumes "window_bounds w n i = (s, e)" and "1 \<le> w" and "i < n"
  shows "s \<le> i \<and> i < e"
proof -
  have "0 \<le> (w - 1) div 2" and "(w - 1) div 2 \<le> w - 1" using assms(2) by auto
  from clip_contains_row [OF this assms(3)] assms(1) show ?thesis
    by (simp add: window_bounds_off)
qed

lemma window_width:
  assumes "window_bounds w n i = (s, e)" and "0 \<le> w"
  shows "int (e - s) \<le> w"
  using clip_width [OF assms(2), of i "(w - 1) div 2" n] assms(1)
  by (simp add: window_bounds_off)

lemma observations_const:
  assumes b: "window_bounds w (length vals) i = (s, e)"
    and c: "\<forall>j. s \<le> j \<and> j < e \<and> j < length vals \<longrightarrow> vals ! j = Fin v"
  shows "\<exists>k. observations vals w i = replicate k v \<and> int k \<le> int (e - s)"
proof -
  let ?ys = "take (e - s) (drop s vals)"
  have "\<forall>x \<in> set ?ys. x = Fin v"
  proof
    fix x assume "x \<in> set ?ys"
    then obtain j where j: "j < length ?ys" "?ys ! j = x" by (auto simp: in_set_conv_nth)
    then have "j < e - s" "s + j < length vals" by auto
    with j c show "x = Fin v" by auto
  qed
  then have "finite_values ?ys = replicate (length ?ys) v" by (rule finite_values_const)
  then show ?thesis by (auto simp: observations_def b)
qed

lemma flag_const_window:
  assumes b: "window_bounds w (length vals) i = (s, e)"
    and c: "\<forall>j. s \<le> j \<and> j < e \<and> j < length vals \<longrightarrow> vals ! j = Fin v"
    and w: "0 \<le> w" and i: "i < length vals"
  shows "fl_gt (fl_abs (fl_div (fl_sub (vals ! i) (roll_mean vals w i))
                               (fl_sqrt (roll_var vals w i)))) t = False"
proof -
  from observations_const [OF b c] obtain k where
    k: "observations vals w i = replicate k v" "int k \<le> int (e - s)" by blast
  show ?thesis
  proof (cases "w \<le> int k \<and> 0 < k")
    case False
    then have "roll_mean vals w i = NaN" by (simp add: roll_mean_def k Let_def)
    then show ?thesis by simp
  next
    case True
    with k(2) window_width [OF b w] have "1 \<le> w" by linarith
    from window_contains_row [OF b this i] c i have vi: "vals ! i = Fin v" by simp
    from True have m: "roll_mean vals w i = Fin v"
      by (simp add: roll_mean_def k Let_def sum_list_replicate)
    have "roll_var vals w i = NaN \<or> roll_var vals w i = Fin 0"
      using True by (simp add: roll_var_def k Let_def sum_list_replicate)
    then show ?thesis using vi m by auto
  qed
qed

lemma detect_anomalies_present:
  assumes "columns df c = Some xs" and "xs \<noteq> []" and "length xs = nrows df"
  shows "detect_anomalies df c w t
         = (case z_score_flags xs w t of
              Inr anomalies \<Rightarrow> Inr anomalies
            | Inl e \<Rightarrow> Inr (replicate (nrows df) (Flag False)))"
proof -
  from assms have "\<not> df_empty df" by (cases xs) (auto simp: df_empty_def)
  moreover from assms(1) have "c \<in> dom (columns df)" by auto
  ultimately show ?thesis using assms(1,3) by (simp add: detect_anomalies_def)
qed

lemma z_score_flags_raises:
  "w < 0 \<or> numeric_values col = None \<Longrightarrow> \<exists>e. z_score_flags col w t = Inl e"
  by (auto simp: z_score_flags_def rolling_mean_def)


lemma detect_anomalies_raised:
  assumes "columns df c = Some xs" and "length xs = nrows df"
    and "w < 0 \<or> numeric_values xs = None"
  shows "detect_anomalies df c w t = Inr (replicate (length xs) (Flag False))"
proof (cases "xs = []")
  case True
  with assms(2) show ?thesis by (simp add: detect_anomalies_def df_empty_def)
next
  case False
  from z_score_flags_raises [OF assms(3)] obtain e where "z_score_flags xs w t = Inl e"
    by blast
  with detect_anomalies_present [OF assms(1) False assms(2)] assms(2) show ?thesis by simp
qed

lemma detect_anomalies_numeric:
  assumes "columns df c = Some xs" and "length xs = nrows df"
    and "0 \<le> w" and "numeric_values xs = Some vals"
  shows "detect_anomalies df c w t =
         Inr (map (\<lambda>i. Flag (fl_gt (fl_abs (fl_div (fl_sub (vals ! i) (roll_mean vals w i))
                                            (fl_sqrt (roll_var vals w i)))) t))
                [0..<length xs])"
proof (cases "xs = []")
  case True
  with assms(2) show ?thesis by (simp add: detect_anomalies_def df_empty_def)
next
  case False
  from detect_anomalies_present [OF assms(1) False assms(2)]
    z_score_flags_numeric [OF assms(4,3)] numeric_values_length [OF assms(4)]
  show ?thesis by simp
qed

text \<open>
  C3. For every series that is shorter than the window, the empty series included,
  \<^verbatim>\<open>detect_anomalies\<close> raises nothing and returns the all-false series of the length of
  the input.
\<close>
theorem short_series_all_false:
  assumes "columns df c = Some xs" and "length xs = nrows df" and "int (length xs) < w"
  shows "detect_anomalies df c w t = Inr (replicate (length xs) (Flag False))"
proof (cases "numeric_values xs")
  case None
  then show ?thesis using detect_anomalies_raised [OF assms(1,2)] by simp
next
  case (Some vals)
  from assms(3) have w: "0 \<le> w" by simp
  have n: "length vals = length xs" using Some by (rule numeric_values_length)
  have "roll_mean vals w i = NaN" for i
    using assms(3) n by (simp add: roll_mean_short)
  then show ?thesis
    using detect_anomalies_numeric [OF assms(1,2) w Some]
    by (simp add: map_replicate_const)
qed

theorem short_series_all_false_witness:
  "columns (single_column ''pressure'' [Num (Fin 3), Num (Fin 900), Num (Fin 3)]) ''pressure''
     = Some [Num (Fin 3), Num (Fin 900), Num (Fin 3)]
   \<and> length [Num (Fin 3), Num (Fin 900), Num (Fin 3)]
     = nrows (single_column ''pressure'' [Num (Fin 3), Num (Fin 900), Num (Fin 3)])
   \<and> int (length [Num (Fin 3), Num (Fin 900), Num (Fin 3)]) < 20
   \<and> detect_anomalies (single_column ''pressure'' [Num (Fin 3), Num (Fin 900), Num (Fin 3)])
        ''pressure'' 20 3 = Inr [Flag False, Flag False, Flag False]"
  using short_series_all_false
    [of "single_column ''pressure'' [Num (Fin 3), Num (Fin 900), Num (Fin 3)]" "''pressure''"
        "[Num (Fin 3), Num (Fin 900), Num (Fin 3)]" 20 3]
  by (simp add: single_column_def numeral_3_eq_3)

text \<open>
  C8, as the specification states it, fails: on a series with a value that is not a
  number the detector returns a result, the all-false series, and no error.
\<close>

theorem non_numeric_counterexample:
  "detect_anomalies (single_column ''flow_rate'' [Num (Fin 5), Obj ''n/a'', Num (Fin 6)])
     ''flow_rate'' 2 3 = Inr [Flag False, Flag False, Flag False]
   \<and> detect_anomalies (single_column ''flow_rate'' [Num (Fin 5), Obj ''n/a'', Num (Fin 6)])
     ''flow_rate'' 2 3 \<noteq> Inl InvalidInput"
  by (simp add: detect_anomalies_def single_column_def df_empty_def z_score_flags_def
      rolling_mean_def)

text \<open>
  C8, amended. For every series that contains a value that is not a number,
  \<^verbatim>\<open>detect_anomalies\<close> raises nothing: \<^verbatim>\<open>except Exception\<close> catches the error of the
  rolling window and the function returns the all-false series over the index of the
  frame.
\<close>

theorem non_numeric_series_all_false:
  assumes "columns df c = Some xs" and "length xs = nrows df" and "Obj s \<in> set xs"
  shows "detect_anomalies df c w t = Inr (replicate (length xs) (Flag False))"
  using detect_anomalies_raised [OF assms(1,2)] numeric_values_Obj [OF assms(3)] by simp

theorem non_numeric_series_all_false_witness:
  "columns (single_column ''pressure'' [Obj ''low'', Num (Fin 3)]) ''pressure''
     = Some [Obj ''low'', Num (Fin 3)]
   \<and> length [Obj ''low'', Num (Fin 3)]
     = nrows (single_column ''pressure'' [Obj ''low'', Num (Fin 3)])
   \<and> Obj ''low'' \<in> set [Obj ''low'', Num (Fin 3)]
   \<and> detect_anomalies (single_column ''pressure'' [Obj ''low'', Num (Fin 3)])
        ''pressure'' 1 3 = Inr [Flag False, Flag False]"
  using non_numeric_series_all_false
    [of "single_column ''pressure'' [Obj ''low'', Num (Fin 3)]" "''pressure''"
        "[Obj ''low'', Num (Fin 3)]" "''low''" 1 3]
  by (simp add: single_column_def numeral_2_eq_2)

text \<open>
  C10. For every data frame without the named column, \<^verbatim>\<open>detect_anomalies\<close> raises
  nothing and returns a series over the index of the frame whose entries are all
  missing values, so that no entry is true.
\<close>
theorem absent_column_no_anomaly:
  assumes "columns df c = None"
  shows "detect_anomalies df c w t = Inr (replicate (nrows df) Missing)
         \<and> Flag True \<notin> set (replicate (nrows df) Missing)"
  using assms by (auto simp: detect_anomalies_def)

theorem absent_column_no_anomaly_witness:
  "columns (single_column ''pressure'' [Num (Fin 3), Num (Fin 900)]) ''flow_rate'' = None
   \<and> detect_anomalies (single_column ''pressure'' [Num (Fin 3), Num (Fin 900)])
        ''flow_rate'' 20 3 = Inr [Missing, Missing]"
  using absent_column_no_anomaly
    [of "single_column ''pressure'' [Num (Fin 3), Num (Fin 900)]" "''flow_rate''" 20 3]
  by (simp add: single_column_def numeral_2_eq_2)

text \<open>
  C2. For every series and every row whose centred window holds one and the same value
  in all its rows (so that the standard deviation is 0), \<^verbatim>\<open>detect_anomalies\<close> raises
  nothing, division by zero included, and its entry at that row is false, for every such
  value, window and threshold.
\<close>
theorem constant_window_never_flagged:
  assumes "columns df c = Some xs" and "length xs = nrows df" and "i < length xs"
    and "\<forall>j. fst (window_bounds w (length xs) i) \<le> j
             \<and> j < snd (window_bounds w (length xs) i) \<and> j < length xs
           \<longrightarrow> xs ! j = Num (Fin v)"
  shows "\<exists>r. detect_anomalies df c w t = Inr r \<and> length r = length xs
             \<and> r ! i = Flag False"
proof (cases "w < 0 \<or> numeric_values xs = None")
  case True
  from detect_anomalies_raised [OF assms(1,2) True] assms(3) show ?thesis by simp
next
  case False
  then obtain vals where w: "0 \<le> w" and vals: "numeric_values xs = Some vals" by auto
  have n: "length vals = length xs" using vals by (rule numeric_values_length)
  obtain s e where b: "window_bounds w (length vals) i = (s, e)"
    by (cases "window_bounds w (length vals) i")
  have c: "\<forall>j. s \<le> j \<and> j < e \<and> j < length vals \<longrightarrow> vals ! j = Fin v"
  proof (intro allI impI)
    fix j assume j: "s \<le> j \<and> j < e \<and> j < length vals"
    with assms(4) b n have "xs ! j = Num (Fin v)" by simp
    moreover from numeric_values_nth [OF vals, of j] j n have "xs ! j = Num (vals ! j)" by simp
    ultimately show "vals ! j = Fin v" by simp
  qed
  from assms(3) n have i: "i < length vals" by simp
  from detect_anomalies_numeric [OF assms(1,2) w vals, of t]
    flag_const_window [OF b c w i, of t] assms(3)
  show ?thesis by simp
qed

theorem constant_window_never_flagged_witness:
  "columns (single_column ''pressure''
       [Num (Fin 7), Num (Fin 7), Num (Fin 7), Num (Fin 7), Num (Fin 1007)]) ''pressure''
     = Some [Num (Fin 7), Num (Fin 7), Num (Fin 7), Num (Fin 7), Num (Fin 1007)]
   \<and> length [Num (Fin 7), Num (Fin 7), Num (Fin 7), Num (Fin 7), Num (Fin 1007)]
     = nrows (single_column ''pressure''
         [Num (Fin 7), Num (Fin 7), Num (Fin 7), Num (Fin 7), Num (Fin 1007)])
   \<and> 2 < length [Num (Fin 7), Num (Fin 7), Num (Fin 7), Num (Fin 7), Num (Fin 1007)]
   \<and> window_bounds 4 5 2 = (0, 4)
   \<and> (\<exists>r. detect_anomalies (single_column ''pressure''
              [Num (Fin 7), Num (Fin 7), Num (Fin 7), Num (Fin 7), Num (Fin 1007)])
            ''pressure'' 4 3 = Inr r
          \<and> length r = 5 \<and> r ! 2 = Flag False)"
proof -
  let ?xs = "[Num (Fin 7), Num (Fin 7), Num (Fin 7), Num (Fin 7), Num (Fin 1007)]"
  have b: "window_bounds 4 5 2 = (0, 4)" by (simp add: window_bounds_def)
  have h: "\<forall>j. fst (window_bounds 4 (length ?xs) 2) \<le> j
             \<and> j < snd (window_bounds 4 (length ?xs) 2) \<and> j < length ?xs
           \<longrightarrow> ?xs ! j = Num (Fin 7)"
  proof (intro allI impI)
    fix j :: nat
    assume "fst (window_bounds 4 (length ?xs) 2) \<le> j
             \<and> j < snd (window_bounds 4 (length ?xs) 2) \<and> j < length ?xs"
    moreover have "length ?xs = 5" by simp
    ultimately have "j < snd (window_bounds 4 5 2)" by (simp only:)
    then have "j < 4" by (simp only: b snd_conv)
    then have "j = 0 \<or> j = 1 \<or> j = 2 \<or> j = 3" by arith
    then show "?xs ! j = Num (Fin 7)" by auto
  qed
  have c: "columns (single_column ''pressure'' ?xs) ''pressure'' = Some ?xs"
    by (simp add: single_column_def)
  have n: "length ?xs = nrows (single_column ''pressure'' ?xs)"
    by (simp add: single_column_def)
  have i: "2 < length ?xs" by simp
  have l: "length ?xs = 5" by simp
  from constant_window_never_flagged [OF c n i h, of 3]
  have "\<exists>r. detect_anomalies (single_column ''pressure'' ?xs) ''pressure'' 4 3 = Inr r
            \<and> length r = 5 \<and> r ! 2 = Flag False"
    by (simp only: l)
  with c n i b show ?thesis by (intro conjI)
qed

lemma spike_series_length: "length spike_series = 30"
  by (simp add: spike_series_def)

text \<open>
  C1. For the series of 30 values, all 5.0 but for 500.0 at index 15,
  \<^verbatim>\<open>detect_anomalies\<close> with window 20 and threshold 3.0 returns the boolean series of
  length 30 that is true at index 15 and false at every other index.
\<close>

theorem spike_flagged_at_15_only:
  "detect_anomalies (single_column ''flow_rate'' spike_series) ''flow_rate'' 20 3
   = Inr (map (\<lambda>i. Flag (i = 15)) [0..<30])"
proof -
  have c: "columns (single_column ''flow_rate'' spike_series) ''flow_rate'' = Some spike_series"
    by (simp add: single_column_def)
  have n: "length spike_series = nrows (single_column ''flow_rate'' spike_series)"
    by (simp add: single_column_def)
  have ne: "spike_series \<noteq> []" using spike_series_length by auto
  from detect_anomalies_present [OF c ne n, of 20 3] spike_flags show ?thesis by simp
qed

theorem spike_flagged_at_15_only_witness:
  "map_sum id length
     (detect_anomalies (single_column ''flow_rate'' spike_series) ''flow_rate'' 20 3) = Inr 30
   \<and> map_sum id (\<lambda>r. r ! 15)
     (detect_anomalies (single_column ''flow_rate'' spike_series) ''flow_rate'' 20 3)
       = Inr (Flag True)
   \<and> map_sum id (\<lambda>r. r ! 14)
     (detect_anomalies (single_column ''flow_rate'' spike_series) ''flow_rate'' 20 3)
       = Inr (Flag False)"
  using spike_flagged_at_15_only by simp

end
